theory Spec2Isabelle
  imports Complex_Main
begin

section \<open>Data model (type.ts)\<close>

text \<open>
  The TypeScript \<open>number\<close>s of the source are modelled as exact integers (the
  specification treats dimensions as exact values).  The one place where the source
  leaves the finite numbers is \<open>Math.max\<close> over an empty range, which starts from
  \<open>-Infinity\<close>; the model makes that value explicit as \<open>None\<close> and reports its use
  as the outcome \<open>NonFinite\<close>.  Reading a field of \<open>undefined\<close> is \<open>TypeError\<close>.

  Field names carry a prefix for the interface they belong to:
  \<open>b_\<close> for Box, \<open>p_\<close> for Pallet, \<open>n_\<close> for the skyline Node, \<open>pl_\<close> for the
  fields PlacedBox adds to Box, \<open>c_\<close> for the candidate record of findBestBoxForGap.
\<close>

datatype error = TypeError | NonFinite

record Box =
  b_id :: string
  b_w :: int
  b_h :: int
  b_d :: int
  b_qty :: int

record PlacedBox = Box +
  pl_x :: int
  pl_y :: int
  pl_z :: int
  pl_orientation :: "int \<times> int \<times> int"

record Pallet =
  p_w :: int
  p_h :: int
  p_d :: int

record LayerCandidate =
  height :: int
  evalScore :: int

record Node =
  n_x :: int
  n_z :: int

section \<open>Skyline profile (packing.ts)\<close>

text \<open>One iteration of the loop of mergeNodes: \<open>out\<close> is the list built so far.\<close>

definition mergeStep :: "Node list \<Rightarrow> Node \<Rightarrow> Node list" where
  "mergeStep out n =
     (if out = [] then [n]
      else (let l = last out in
            if n_z l = n_z n then butlast out @ [l\<lparr>n_x := n_x n\<rparr>]
            else out @ [n]))"

definition mergeNodes :: "Node list \<Rightarrow> Node list" where
  "mergeNodes nodes = foldl mergeStep [] nodes"

text \<open>
  \<open>Math.max\<close> accumulated from \<open>-Infinity\<close> (\<open>None\<close>) over a list of values.
\<close>

fun maxAcc :: "int option \<Rightarrow> int \<Rightarrow> int option" where
  "maxAcc None z = Some z"
| "maxAcc (Some m) z = Some (max m z)"

definition maxOf :: "int list \<Rightarrow> int option" where
  "maxOf zs = foldl maxAcc None zs"

text \<open>
  skylineUpdate.  \<open>kept\<close> are the nodes copied by the first loop, \<open>i\<close> its final
  index; the second loop skips, from \<open>i\<close> on, the nodes with \<open>x \<le> rightX\<close>;
  \<open>zAfter\<close> is the z of the last node of the original list with \<open>x \<le> rightX\<close>.
  On an empty node list \<open>nodes[nodes.length - 1].x\<close> raises.
\<close>

definition skylineUpdate :: "Node list \<Rightarrow> int \<Rightarrow> int \<Rightarrow> int \<Rightarrow> error + Node list" where
  "skylineUpdate nodes x bw newTop =
     (let rightX = x + bw;
          kept = takeWhile (\<lambda>n. n_x n < x) nodes;
          i = length kept;
          out1 = (if kept = [] \<or> n_x (last kept) \<noteq> x
                  then kept @ [\<lparr>n_x = x, n_z = newTop\<rparr>]
                  else butlast kept @ [(last kept)\<lparr>n_z := newTop\<rparr>]);
          rest = dropWhile (\<lambda>n. n_x n \<le> rightX) (drop i nodes);
          zAfter = (case find (\<lambda>n. n_x n \<le> rightX) (rev nodes) of
                      Some n \<Rightarrow> n_z n | None \<Rightarrow> 0)
      in if nodes = [] then Inl TypeError
         else if rightX < n_x (last nodes)
         then Inr (mergeNodes
                ((if zAfter \<noteq> newTop then out1 @ [\<lparr>n_x = rightX, n_z = zAfter\<rparr>] else out1)
                 @ rest))
         else Inr (mergeNodes
                (out1 @ [\<lparr>n_x = n_x (last nodes), n_z = n_z (last nodes)\<rparr>])))"

section \<open>Best box for a gap\<close>

record Cand =
  c_index :: nat
  c_orientation :: "int \<times> int \<times> int"
  c_score :: int

definition orients :: "Box \<Rightarrow> (int \<times> int \<times> int) list" where
  "orients box =
     [(b_w box, b_h box, b_d box),
      (b_w box, b_d box, b_h box),
      (b_h box, b_w box, b_d box),
      (b_h box, b_d box, b_w box),
      (b_d box, b_w box, b_h box),
      (b_d box, b_h box, b_w box)]"

text \<open>The body of the inner loop of findBestBoxForGap, for box index \<open>i\<close>.\<close>

definition considerOrient ::
  "int \<Rightarrow> int \<Rightarrow> int \<Rightarrow> int \<Rightarrow> nat \<Rightarrow> Cand option \<Rightarrow> int \<times> int \<times> int \<Rightarrow> Cand option" where
  "considerOrient gapWidth gapDepth layerHeight maxAvailableY i best ori =
     (case ori of (bw, bh, bd) \<Rightarrow>
        if bw > gapWidth then best
        else if bd > gapDepth then best
        else (let fitsLayer = (bh \<le> maxAvailableY);
                  primaryPenalty = (if fitsLayer then abs (layerHeight - bh)
                                    else 100000 + abs (bh - layerHeight));
                  score = primaryPenalty * 10000 + abs (bw - gapWidth) * 100 + abs (bd - gapDepth)
              in (case best of
                    None \<Rightarrow> Some \<lparr>c_index = i, c_orientation = ori, c_score = score\<rparr>
                  | Some b \<Rightarrow>
                      if score < c_score b
                      then Some \<lparr>c_index = i, c_orientation = ori, c_score = score\<rparr>
                      else best)))"

text \<open>The body of the outer loop, for the box at index \<open>i\<close>.\<close>

definition considerBox ::
  "Box list \<Rightarrow> int \<Rightarrow> int \<Rightarrow> int \<Rightarrow> int \<Rightarrow> Cand option \<Rightarrow> nat \<Rightarrow> Cand option" where
  "considerBox boxes gapWidth gapDepth layerHeight maxAvailableY best i =
     (let box = boxes ! i in
      if b_qty box \<le> 0 then best
      else foldl (considerOrient gapWidth gapDepth layerHeight maxAvailableY i) best (orients box))"

definition findBestBoxForGap ::
  "Box list \<Rightarrow> int \<Rightarrow> int \<Rightarrow> int \<Rightarrow> int \<Rightarrow> Cand option" where
  "findBestBoxForGap boxes gapWidth gapDepth layerHeight maxAvailableY =
     foldl (considerBox boxes gapWidth gapDepth layerHeight maxAvailableY) None
       [0 ..< length boxes]"

section \<open>Layer packer\<close>

text \<open>
  The loop \<open>while (j < nodes.length - 1 && span < bw)\<close>; returns the final
  \<open>(span, j)\<close> (the variable \<open>span\<close> is written \<open>spn\<close>).
\<close>

function findSpan :: "Node list \<Rightarrow> int \<Rightarrow> int \<Rightarrow> int \<Rightarrow> nat \<Rightarrow> int \<times> nat" where
  "findSpan nodes gapX bw spn j =
     (if Suc j < length nodes \<and> spn < bw
      then findSpan nodes gapX bw (n_x (nodes ! Suc j) - gapX) (Suc j)
      else (spn, j))"
  by pat_completeness auto
termination
  by (relation "measure (\<lambda>(nodes, gapX, bw, spn, j). length nodes - j)") auto

text \<open>
  What the body of the \<open>for\<close> loop over the gaps does at index \<open>i\<close>:
  \<open>Skip\<close> is \<open>continue\<close>, \<open>Commit\<close> is the placement followed by \<open>break\<close>, with
  the new node list, the new catalog and the PlacedBox.
\<close>

datatype gap_outcome = Skip | Commit "Node list" "Box list" PlacedBox | Raise error

definition tryGap ::
  "Box list \<Rightarrow> Pallet \<Rightarrow> int \<Rightarrow> int \<Rightarrow> Node list \<Rightarrow> nat \<Rightarrow> gap_outcome" where
  "tryGap boxes pallet layerHeight yBase nodes i =
     (let gapX = n_x (nodes ! i);
          gapWidthTotal = n_x (nodes ! Suc i) - gapX
      in if gapWidthTotal \<le> 0 then Skip
         else (case maxOf (map (\<lambda>k. n_z (nodes ! k)) [i ..< length nodes - 1]) of
                 None \<Rightarrow> Raise NonFinite
               | Some maxZInSpan \<Rightarrow>
                   (let gapDepthAvailable = p_d pallet - maxZInSpan
                    in if gapDepthAvailable \<le> 0 then Skip
                       else (case findBestBoxForGap boxes gapWidthTotal gapDepthAvailable
                                     layerHeight layerHeight of
                               None \<Rightarrow> Skip
                             | Some cand \<Rightarrow>
                                 (let box = boxes ! c_index cand
                                  in (case c_orientation cand of (bw, bh, bd) \<Rightarrow>
                                      (case findSpan nodes gapX bw 0 i of (spn, j) \<Rightarrow>
                                         if spn < bw then Skip
                                         else (case maxOf (map (\<lambda>k. n_z (nodes ! k)) [i ..< j]) of
                                                 None \<Rightarrow> Raise NonFinite
                                               | Some exactMaxZ \<Rightarrow>
                                                   if exactMaxZ + bd > p_d pallet then Skip
                                                   else (case skylineUpdate nodes gapX bw (exactMaxZ + bd) of
                                                           Inl e \<Rightarrow> Raise e
                                                         | Inr nodes' \<Rightarrow>
                                                             Commit nodes'
                                                               (boxes[c_index cand := box\<lparr>b_qty := b_qty box - 1\<rparr>])
                                                               \<lparr>b_id = b_id box, b_w = bw, b_h = bh, b_d = bd,
                                                                b_qty = 1, pl_x = gapX, pl_y = yBase,
                                                                pl_z = exactMaxZ,
                                                                pl_orientation = (bw, bh, bd)\<rparr>)))))))))"

text \<open>
  The \<open>for\<close> loop over the gap indices \<open>is\<close>, left to right: the first index
  that commits ends the scan.  \<open>Skip\<close> as the result of the whole scan means
  \<open>anyPlacedThisRound = false\<close>.
\<close>

fun scanGaps ::
  "Box list \<Rightarrow> Pallet \<Rightarrow> int \<Rightarrow> int \<Rightarrow> Node list \<Rightarrow> nat list \<Rightarrow> gap_outcome" where
  "scanGaps boxes pallet layerHeight yBase nodes [] = Skip"
| "scanGaps boxes pallet layerHeight yBase nodes (i # is) =
     (case tryGap boxes pallet layerHeight yBase nodes i of
        Skip \<Rightarrow> scanGaps boxes pallet layerHeight yBase nodes is
      | Commit nodes' boxes' pb \<Rightarrow> Commit nodes' boxes' pb
      | Raise e \<Rightarrow> Raise e)"

text \<open>
  The \<open>while (true)\<close> loop of packLayerSkyline on the state
  \<open>(nodes, boxes, placed)\<close>.  The loop has no bound of its own, so it is a partial
  function: \<open>None\<close> would be a run that never returns.
\<close>

partial_function (option) layerLoop ::
  "Pallet \<Rightarrow> int \<Rightarrow> int \<Rightarrow> Node list \<Rightarrow> Box list \<Rightarrow> PlacedBox list
     \<Rightarrow> (error + PlacedBox list \<times> Box list) option" where
  "layerLoop pallet layerHeight yBase nodes boxes placed =
     (case scanGaps boxes pallet layerHeight yBase nodes [0 ..< length nodes - 1] of
        Skip \<Rightarrow> Some (Inr (placed, boxes))
      | Raise e \<Rightarrow> Some (Inl e)
      | Commit nodes' boxes' pb \<Rightarrow>
          layerLoop pallet layerHeight yBase nodes' boxes' (placed @ [pb]))"

declare layerLoop.simps [code]

definition packLayerSkyline ::
  "Box list \<Rightarrow> Pallet \<Rightarrow> int \<Rightarrow> int \<Rightarrow> (error + PlacedBox list \<times> Box list) option" where
  "packLayerSkyline boxesIn pallet layerHeight yBase =
     layerLoop pallet layerHeight yBase
       [\<lparr>n_x = 0, n_z = 0\<rparr>, \<lparr>n_x = p_w pallet, n_z = 0\<rparr>] boxesIn []"

section \<open>Pallet packer\<close>

text \<open>
  One iteration of the body of \<open>while (currentY < pallet.h)\<close> on the state
  \<open>(remainingBoxes, placedAll, currentY, currentLayerHeight)\<close>:
  \<open>Break\<close> leaves the loop, \<open>Continue\<close> carries the new state, \<open>Throw\<close> is an
  error of the layer packer, \<open>Hang\<close> a layer packer that does not return.
\<close>

datatype stack_outcome =
  Break | Continue "Box list" "PlacedBox list" int int | Throw error | Hang

definition stackStep ::
  "Pallet \<Rightarrow> Box list \<Rightarrow> PlacedBox list \<Rightarrow> int \<Rightarrow> int \<Rightarrow> stack_outcome" where
  "stackStep pallet remainingBoxes placedAll currentY currentLayerHeight0 =
     (let clip = (currentY + currentLayerHeight0 > p_h pallet);
          currentLayerHeight = (if clip then p_h pallet - currentY else currentLayerHeight0)
      in if clip \<and> currentLayerHeight \<le> 0 then Break
         else (case packLayerSkyline remainingBoxes pallet currentLayerHeight currentY of
                 None \<Rightarrow> Hang
               | Some (Inl e) \<Rightarrow> Throw e
               | Some (Inr (placed, boxesOut)) \<Rightarrow>
                   if length placed = 0 then Break
                   else (case maxOf (map b_h placed) of
                           None \<Rightarrow> Throw NonFinite
                         | Some maxPlacedH \<Rightarrow>
                             (let effectiveLayerUsed = max currentLayerHeight maxPlacedH
                              in Continue boxesOut (placedAll @ placed)
                                   (currentY + effectiveLayerUsed) currentLayerHeight))))"

partial_function (option) stackLoop ::
  "Pallet \<Rightarrow> Box list \<Rightarrow> PlacedBox list \<Rightarrow> int \<Rightarrow> int \<Rightarrow> (error + PlacedBox list) option" where
  "stackLoop pallet remainingBoxes placedAll currentY currentLayerHeight =
     (if currentY < p_h pallet
      then (case stackStep pallet remainingBoxes placedAll currentY currentLayerHeight of
              Break \<Rightarrow> Some (Inr placedAll)
            | Throw e \<Rightarrow> Some (Inl e)
            | Hang \<Rightarrow> None
            | Continue boxesOut placedAll' currentY' currentLayerHeight' \<Rightarrow>
                stackLoop pallet boxesOut placedAll' currentY' currentLayerHeight')
      else Some (Inr placedAll))"

declare stackLoop.simps [code]

definition usedVolume :: "PlacedBox list \<Rightarrow> int" where
  "usedVolume placedAll = foldl (\<lambda>s p. s + b_w p * b_h p * b_d p) 0 placedAll"

text \<open>
  The body of the loop over the layer candidates, on the accumulator
  \<open>(bestPlaced, bestUtil)\<close>.  The utilization is the exact quotient.  With a
  pallet volume of zero the source's quotient is \<open>NaN\<close> for a used volume of zero
  (every comparison with it is false, the accumulator stays) and infinite otherwise.
\<close>

definition candidateStep ::
  "Box list \<Rightarrow> Pallet \<Rightarrow> PlacedBox list \<times> rat \<Rightarrow> LayerCandidate
     \<Rightarrow> (error + PlacedBox list \<times> rat) option" where
  "candidateStep boxes pallet best candidate =
     (let totalVolume = p_w pallet * p_h pallet * p_d pallet
      in (case stackLoop pallet boxes [] 0 (height candidate) of
            None \<Rightarrow> None
          | Some (Inl e) \<Rightarrow> Some (Inl e)
          | Some (Inr placedAll) \<Rightarrow>
              (let usedVol = usedVolume placedAll
               in if totalVolume = 0
                  then (if usedVol = 0 then Some (Inr best) else Some (Inl NonFinite))
                  else (let util = rat_of_int usedVol / rat_of_int totalVolume
                        in if util > snd best then Some (Inr (placedAll, util))
                           else Some (Inr best)))))"

fun candidateLoop ::
  "Box list \<Rightarrow> Pallet \<Rightarrow> PlacedBox list \<times> rat \<Rightarrow> LayerCandidate list
     \<Rightarrow> (error + PlacedBox list \<times> rat) option" where
  "candidateLoop boxes pallet best [] = Some (Inr best)"
| "candidateLoop boxes pallet best (candidate # cs) =
     (case candidateStep boxes pallet best candidate of
        None \<Rightarrow> None
      | Some (Inl e) \<Rightarrow> Some (Inl e)
      | Some (Inr best') \<Rightarrow> candidateLoop boxes pallet best' cs)"

text \<open>The result pair is \<open>(placed, utilization)\<close>.\<close>

definition packPalletWithLayers ::
  "Box list \<Rightarrow> Pallet \<Rightarrow> LayerCandidate list \<Rightarrow> (error + PlacedBox list \<times> rat) option" where
  "packPalletWithLayers boxes pallet layerCandidates =
     candidateLoop boxes pallet ([], 0) layerCandidates"

section \<open>Layer height planner (layers.ts)\<close>

text \<open>
  \<open>Map.prototype.set\<close> on the entries in insertion order: a key already present
  keeps its position and takes the new value, a new key goes to the end.
\<close>

fun mapSet :: "(int \<times> int) list \<Rightarrow> int \<Rightarrow> int \<Rightarrow> (int \<times> int) list" where
  "mapSet [] k v = [(k, v)]"
| "mapSet ((k', v') # es) k v = (if k' = k then (k, v) # es else (k', v') # mapSet es k v)"

text \<open>The loop variable \<open>dim\<close> of the source is written \<open>dm\<close>.\<close>

definition closest :: "Box \<Rightarrow> int \<Rightarrow> int" where
  "closest b dm = min (min (abs (b_w b - dm)) (abs (b_h b - dm))) (abs (b_d b - dm))"

definition dimScore :: "Box list \<Rightarrow> int \<Rightarrow> int" where
  "dimScore boxes dm = foldl (\<lambda>score b. score + closest b dm) 0 boxes"

definition addDim :: "Box list \<Rightarrow> Pallet \<Rightarrow> (int \<times> int) list \<Rightarrow> int \<Rightarrow> (int \<times> int) list" where
  "addDim boxes pallet heights dm =
     (if dm \<le> p_h pallet then mapSet heights dm (dimScore boxes dm) else heights)"

definition buildLayerCandidates :: "Box list \<Rightarrow> Pallet \<Rightarrow> LayerCandidate list" where
  "buildLayerCandidates boxes pallet =
     (let heights = foldl (\<lambda>heights box. foldl (addDim boxes pallet) heights
                                            [b_w box, b_h box, b_d box]) [] boxes
      in sort_key evalScore
           (map (\<lambda>(h, s). \<lparr>height = h, evalScore = s\<rparr>) heights))"

section \<open>Orientation enumerator (utils.ts)\<close>

text \<open>
  The key \<open>`${a},${b},${c}`\<close> is built from the decimal rendering of the three
  numbers: digits, most significant first, after a minus sign for a negative one.
\<close>

definition digitChar :: "nat \<Rightarrow> char" where
  "digitChar n = ''0123456789'' ! n"

function natString :: "nat \<Rightarrow> string" where
  "natString n = (if n < 10 then [digitChar n] else natString (n div 10) @ [digitChar (n mod 10)])"
  by pat_completeness auto
termination
  by (relation "measure id") auto

definition numString :: "int \<Rightarrow> string" where
  "numString i = (if i < 0 then CHR ''-'' # natString (nat (- i)) else natString (nat i))"

definition key :: "int \<times> int \<times> int \<Rightarrow> string" where
  "key t = (case t of (a, b, c) \<Rightarrow> numString a @ '','' @ numString b @ '','' @ numString c)"

text \<open>The \<open>filter\<close> with the set \<open>seen\<close> of keys met so far.\<close>

fun filterSeen :: "string set \<Rightarrow> (int \<times> int \<times> int) list \<Rightarrow> (int \<times> int \<times> int) list" where
  "filterSeen seen [] = []"
| "filterSeen seen (t # ts) =
     (if key t \<in> seen then filterSeen seen ts
      else t # filterSeen (insert (key t) seen) ts)"

definition getPalletOrientations :: "Pallet \<Rightarrow> Pallet list" where
  "getPalletOrientations pallet =
     (let w = p_w pallet; h = p_h pallet; d = p_d pallet;
          dims = [(w, h, d), (w, d, h), (h, w, d), (h, d, w), (d, w, h), (d, h, w)]
      in map (\<lambda>(W, H, D). \<lparr>p_w = W, p_h = H, p_d = D\<rparr>) (filterSeen {} dims))"

section \<open>Notions used in the statements\<close>

subsection \<open>Candidates and their score\<close>

text \<open>
  A box orientation is feasible for a gap when its width and its depth fit.
  \<open>composite\<close> is the score of an orientation for a gap, with the penalty for the
  height first.  \<open>candidates\<close> lists the pairs of a box index with remaining
  quantity and one of the six orientations of that box, in the order in which the loops
  of findBestBoxForGap visit them; \<open>goodCand\<close> says that a candidate record is one
  of these pairs, feasible, with its composite score.
\<close>

definition feasible :: "int \<Rightarrow> int \<Rightarrow> int \<times> int \<times> int \<Rightarrow> bool" where
  "feasible gapWidth gapDepth ori =
     (case ori of (bw, bh, bd) \<Rightarrow> bw \<le> gapWidth \<and> bd \<le> gapDepth)"

definition penalty :: "int \<Rightarrow> int \<Rightarrow> int \<Rightarrow> int" where
  "penalty layerHeight maxAvailableY bh =
     (if bh \<le> maxAvailableY then abs (bh - layerHeight) else 100000 + abs (bh - layerHeight))"

definition composite :: "int \<Rightarrow> int \<Rightarrow> int \<Rightarrow> int \<Rightarrow> int \<times> int \<times> int \<Rightarrow> int" where
  "composite gapWidth gapDepth layerHeight maxAvailableY ori =
     (case ori of (bw, bh, bd) \<Rightarrow>
        10000 * penalty layerHeight maxAvailableY bh
        + 100 * abs (bw - gapWidth) + abs (bd - gapDepth))"

definition candidates :: "Box list \<Rightarrow> (nat \<times> int \<times> int \<times> int) list" where
  "candidates boxes =
     concat (map (\<lambda>i. if b_qty (boxes ! i) \<le> 0 then []
                       else map (Pair i) (orients (boxes ! i)))
               [0 ..< length boxes])"

definition goodCand ::
  "int \<Rightarrow> int \<Rightarrow> int \<Rightarrow> int \<Rightarrow> (nat \<times> int \<times> int \<times> int) list \<Rightarrow> Cand \<Rightarrow> bool" where
  "goodCand gw gd lh may ps c =
     ((c_index c, c_orientation c) \<in> set ps \<and> feasible gw gd (c_orientation c)
      \<and> c_score c = composite gw gd lh may (c_orientation c))"

subsection \<open>The layer height planner and the orientation enumerator, as specified\<close>

text \<open>
  The contract of the layer height planner: the box dimensions in the order in which
  the loops meet them, each value at its first occurrence, the score of a height as the
  sum over the box types of the least distance of one of the three dimensions to it, and
  the candidates sorted by score with a stable sort.  \<open>addKey\<close> is what
  \<open>Map.set\<close> does to the list of keys.
\<close>

definition allDims :: "Box list \<Rightarrow> int list" where
  "allDims boxes = concat (map (\<lambda>b. [b_w b, b_h b, b_d b]) boxes)"

fun firstOccurrences :: "'a list \<Rightarrow> 'a list" where
  "firstOccurrences [] = []"
| "firstOccurrences (x # xs) = x # filter (\<lambda>y. y \<noteq> x) (firstOccurrences xs)"

definition specScore :: "Box list \<Rightarrow> int \<Rightarrow> int" where
  "specScore boxes h =
     sum_list (map (\<lambda>b. Min {abs (b_w b - h), abs (b_h b - h), abs (b_d b - h)}) boxes)"

definition specLayerCandidates :: "Box list \<Rightarrow> Pallet \<Rightarrow> LayerCandidate list" where
  "specLayerCandidates boxes pallet =
     sort_key evalScore
       (map (\<lambda>h. \<lparr>height = h, evalScore = specScore boxes h\<rparr>)
          (firstOccurrences (filter (\<lambda>d. d \<le> p_h pallet) (allDims boxes))))"

definition addKey :: "int list \<Rightarrow> int \<Rightarrow> int list" where
  "addKey ks d = (if d \<in> set ks then ks else ks @ [d])"

text \<open>
  The contract of the orientation enumerator: the six permutations in the canonical
  order.
\<close>

definition perms6 :: "int \<Rightarrow> int \<Rightarrow> int \<Rightarrow> (int \<times> int \<times> int) list" where
  "perms6 a b c = [(a, b, c), (a, c, b), (b, a, c), (b, c, a), (c, a, b), (c, b, a)]"

definition toPallet :: "int \<times> int \<times> int \<Rightarrow> Pallet" where
  "toPallet t = (case t of (W, H, D) \<Rightarrow> \<lparr>p_w = W, p_h = H, p_d = D\<rparr>)"

subsection \<open>The skyline profile\<close>

text \<open>
  \<open>profileInv\<close> is the invariant of the specification, for a pallet of width
  \<open>W\<close>: strictly increasing x, no two adjacent nodes with the same z, the first node
  at 0 and the last at \<open>W\<close>.  \<open>xsorted\<close> is its first part; \<open>nodeInv\<close> is what
  the layer packer keeps: strictly increasing x, the sentinel at \<open>W\<close>, and no
  negative coordinate.
\<close>

definition xsorted :: "Node list \<Rightarrow> bool" where
  "xsorted nodes = sorted_wrt (\<lambda>a b. n_x a < n_x b) nodes"

definition profileInv :: "int \<Rightarrow> Node list \<Rightarrow> bool" where
  "profileInv W nodes =
     (nodes \<noteq> [] \<and> sorted_wrt (<) (map n_x nodes) \<and> distinct_adj (map n_z nodes)
      \<and> n_x (hd nodes) = 0 \<and> n_x (last nodes) = W)"


subsection \<open>Gaps and commits\<close>




subsection \<open>Catalogs and placements\<close>









subsection \<open>The stacking loop\<close>

text \<open>
  The layer height in force at the cursor: the height carried by the loop, clipped to
  the headroom left below the pallet height.
\<close>

definition clipHeight :: "Pallet \<Rightarrow> int \<Rightarrow> int \<Rightarrow> int" where
  "clipHeight pallet currentY currentLayerHeight =
     (if currentY + currentLayerHeight > p_h pallet then p_h pallet - currentY
      else currentLayerHeight)"

section \<open>The selection of findBestBoxForGap\<close>

lemma considerOrient_eq:
  "considerOrient gw gd lh may i best ori =
     (if feasible gw gd ori
      then (case best of
              None \<Rightarrow> Some \<lparr>c_index = i, c_orientation = ori,
                            c_score = composite gw gd lh may ori\<rparr>
            | Some b \<Rightarrow> if composite gw gd lh may ori < c_score b
                        then Some \<lparr>c_index = i, c_orientation = ori,
                                   c_score = composite gw gd lh may ori\<rparr>
                        else best)
      else best)"
  by (cases ori)
     (auto simp: considerOrient_def feasible_def composite_def penalty_def Let_def
        abs_minus_commute split: option.splits)

lemma findBest_flat:
  "findBestBoxForGap boxes gw gd lh may =
     foldl (\<lambda>best (i, ori). considerOrient gw gd lh may i best ori) None (candidates boxes)"
proof -
  have "foldl (considerBox boxes gw gd lh may) best ks =
        foldl (\<lambda>best (i, ori). considerOrient gw gd lh may i best ori) best
          (concat (map (\<lambda>i. if b_qty (boxes ! i) \<le> 0 then []
                             else map (Pair i) (orients (boxes ! i))) ks))"
    for best ks
  proof (induction ks arbitrary: best)
    case Nil
    show ?case by simp
  next
    case (Cons k ks)
    have "foldl (\<lambda>best (i, ori). considerOrient gw gd lh may i best ori) b (map (Pair k) os)
          = foldl (considerOrient gw gd lh may k) b os" for b os
      by (induction os arbitrary: b) auto
    then show ?case using Cons by (simp add: considerBox_def Let_def)
  qed
  then show ?thesis by (simp add: findBestBoxForGap_def candidates_def)
qed

lemma fold_consider:
  assumes "foldl (\<lambda>best (i, ori). considerOrient gw gd lh may i best ori) best ps = r"
  shows "(case r of
            None \<Rightarrow> best = None \<and> (\<forall>(i, ori) \<in> set ps. \<not> feasible gw gd ori)
          | Some c \<Rightarrow> (best = Some c \<or> goodCand gw gd lh may ps c)
                      \<and> (\<forall>(i, ori) \<in> set ps. feasible gw gd ori
                             \<longrightarrow> c_score c \<le> composite gw gd lh may ori)
                      \<and> (\<forall>b. best = Some b \<longrightarrow> c_score c \<le> c_score b))"
  using assms
proof (induction ps arbitrary: best r)
  case Nil
  then show ?case by (auto split: option.splits)
next
  case (Cons p ps)
  obtain i ori where p: "p = (i, ori)" by (cases p)
  let ?b = "considerOrient gw gd lh may i best ori"
  from Cons.prems p
  have r: "foldl (\<lambda>best (i, ori). considerOrient gw gd lh may i best ori) ?b ps = r"
    by simp
  note IH = Cons.IH[OF r]
  show ?case
  proof (cases r)
    case None
    with IH have "?b = None" and nf: "\<forall>(i, ori) \<in> set ps. \<not> feasible gw gd ori" by auto
    then have "best = None \<and> \<not> feasible gw gd ori"
      by (auto simp: considerOrient_eq split: if_splits option.splits)
    with nf None p show ?thesis by auto
  next
    case (Some c)
    with IH have a: "?b = Some c \<or> goodCand gw gd lh may ps c"
      and b: "\<forall>(i, ori) \<in> set ps. feasible gw gd ori
                 \<longrightarrow> c_score c \<le> composite gw gd lh may ori"
      and c: "\<forall>b. ?b = Some b \<longrightarrow> c_score c \<le> c_score b" by auto
    have 1: "best = Some c \<or> goodCand gw gd lh may (p # ps) c"
      using a p by (auto simp: considerOrient_eq goodCand_def split: if_splits option.splits)
    have 2: "feasible gw gd ori \<longrightarrow> c_score c \<le> composite gw gd lh may ori"
      using c by (auto simp: considerOrient_eq split: if_splits option.splits)
    have 3: "\<forall>b. best = Some b \<longrightarrow> c_score c \<le> c_score b"
      using c by (auto simp: considerOrient_eq split: if_splits option.splits)
    from 1 2 3 b Some p show ?thesis by auto
  qed
qed


lemma findBest_Some:
  assumes "findBestBoxForGap boxes gw gd lh may = Some c"
  shows "goodCand gw gd lh may (candidates boxes) c"
    and "\<And>i ori. (i, ori) \<in> set (candidates boxes) \<Longrightarrow> feasible gw gd ori
           \<Longrightarrow> c_score c \<le> composite gw gd lh may ori"
  using fold_consider[OF findBest_flat[symmetric], of boxes gw gd lh may] assms by auto

lemma in_candidates:
  "(i, ori) \<in> set (candidates boxes) \<longleftrightarrow>
     i < length boxes \<and> 0 < b_qty (boxes ! i) \<and> ori \<in> set (orients (boxes ! i))"
  by (auto simp: candidates_def split: if_splits)

text \<open>
  C3 (as amended).  The candidate returned by findBestBoxForGap is a box with remaining
  quantity in one of its orientations that fits the gap, and its score is
  \<open>10000 * p + 100 * |width - gap width| + |depth - gap depth|\<close>, where
  \<open>p = |height - target|\<close> when the height is within the layer limit and
  \<open>p = 100000 + |height - target|\<close> otherwise; no feasible pair scores less under that
  formula.
\<close>

theorem findBestBoxForGap_score:
  assumes "findBestBoxForGap boxes gapWidth gapDepth layerHeight maxAvailableY = Some c"
  shows "\<exists>bw bh bd.
           c_orientation c = (bw, bh, bd)
           \<and> c_index c < length boxes \<and> 0 < b_qty (boxes ! c_index c)
           \<and> (bw, bh, bd) \<in> set (orients (boxes ! c_index c))
           \<and> bw \<le> gapWidth \<and> bd \<le> gapDepth
           \<and> c_score c =
               10000 * (if bh \<le> maxAvailableY then abs (bh - layerHeight)
                        else 100000 + abs (bh - layerHeight))
               + 100 * abs (bw - gapWidth) + abs (bd - gapDepth)
           \<and> (\<forall>i < length boxes. \<forall>ori \<in> set (orients (boxes ! i)).
                 0 < b_qty (boxes ! i) \<and> feasible gapWidth gapDepth ori
                 \<longrightarrow> c_score c \<le> composite gapWidth gapDepth layerHeight maxAvailableY ori)"
proof -
  obtain bw bh bd where o: "c_orientation c = (bw, bh, bd)"
    by (cases "c_orientation c")
  from findBest_Some(1)[OF assms] o
  have "c_index c < length boxes" "0 < b_qty (boxes ! c_index c)"
    "(bw, bh, bd) \<in> set (orients (boxes ! c_index c))" "bw \<le> gapWidth" "bd \<le> gapDepth"
    "c_score c = 10000 * (if bh \<le> maxAvailableY then abs (bh - layerHeight)
                          else 100000 + abs (bh - layerHeight))
                 + 100 * abs (bw - gapWidth) + abs (bd - gapDepth)"
    by (auto simp: goodCand_def in_candidates feasible_def composite_def penalty_def)
  moreover have "\<forall>i < length boxes. \<forall>ori \<in> set (orients (boxes ! i)).
                 0 < b_qty (boxes ! i) \<and> feasible gapWidth gapDepth ori
                 \<longrightarrow> c_score c \<le> composite gapWidth gapDepth layerHeight maxAvailableY ori"
    using findBest_Some(2)[OF assms] by (auto simp: in_candidates)
  ultimately show ?thesis using o by blast
qed

theorem findBestBoxForGap_score_witness:
  "findBestBoxForGap [\<lparr>b_id = ''A'', b_w = 5, b_h = 5, b_d = 5, b_qty = 1\<rparr>] 10 10 10 10
      = Some \<lparr>c_index = 0, c_orientation = (5, 5, 5), c_score = 50505\<rparr>
   \<and> (50505::int) = 10000 * abs (5 - 10) + 100 * abs (5 - 10) + abs (5 - 10)"
proof -
  have h: "findBestBoxForGap [\<lparr>b_id = ''A'', b_w = 5, b_h = 5, b_d = 5, b_qty = 1\<rparr>] 10 10 10 10
      = Some \<lparr>c_index = 0, c_orientation = (5, 5, 5), c_score = 50505\<rparr>"
    by code_simp
  from findBestBoxForGap_score[OF h] show ?thesis using h by simp
qed

text \<open>
  The claim as stated, with the penalty entering the score unscaled, fails: a 5-cube in
  a gap of width 10 and depth 10 under a target height of 10 fits the layer, so
  \<open>p = 5\<close> and the stated score is \<open>5 + 100 * 5 + 5 = 510\<close>; the code returns 50505.
  The scale also decides the choice: for a box of 8 by 10 by 8 in the same gap the code
  returns the orientation (8, 10, 8), whose stated score is \<open>0 + 100 * 2 + 2 = 202\<close>,
  although the feasible orientation (10, 8, 8) has the stated score
  \<open>2 + 100 * 0 + 2 = 4\<close>.
\<close>

theorem score_unscaled_counterexample:
  "map_option c_score
     (findBestBoxForGap [\<lparr>b_id = ''A'', b_w = 5, b_h = 5, b_d = 5, b_qty = 1\<rparr>] 10 10 10 10)
     = Some 50505
   \<and> (5::int) \<le> 10
   \<and> (50505::int) \<noteq> abs (5 - 10) + 100 * abs (5 - 10) + abs (5 - 10)
   \<and> findBestBoxForGap [\<lparr>b_id = ''B'', b_w = 8, b_h = 10, b_d = 8, b_qty = 1\<rparr>] 10 10 10 10
     = Some \<lparr>c_index = 0, c_orientation = (8, 10, 8), c_score = 202\<rparr>
   \<and> (10, 8, 8) \<in> set (orients \<lparr>b_id = ''B'', b_w = 8, b_h = 10, b_d = 8, b_qty = 1\<rparr>)
   \<and> feasible 10 10 (10, 8, 8)
   \<and> (abs (8 - 10) + 100 * abs (10 - 10) + abs (8 - 10) :: int)
     < abs (10 - 10) + 100 * abs (8 - 10) + abs (8 - 10)"
  by code_simp

section \<open>The layer height planner\<close>

lemma foldl_addKey:
  "foldl addKey ks ds = ks @ filter (\<lambda>d. d \<notin> set ks) (firstOccurrences ds)"
proof (induction ds arbitrary: ks)
  case Nil
  show ?case by simp
next
  case (Cons d ds)
  show ?case
  proof (cases "d \<in> set ks")
    case True
    have "filter (\<lambda>d. d \<notin> set ks) (filter (\<lambda>y. y \<noteq> d) (firstOccurrences ds))
          = filter (\<lambda>d. d \<notin> set ks) (firstOccurrences ds)"
      using True by (auto intro: filter_cong)
    with True Cons show ?thesis by (simp add: addKey_def)
  next
    case False
    have "filter (\<lambda>e. e \<notin> set (ks @ [d])) (firstOccurrences ds)
          = filter (\<lambda>d. d \<notin> set ks) (filter (\<lambda>y. y \<noteq> d) (firstOccurrences ds))"
      by (auto intro: filter_cong)
    with False Cons[of "ks @ [d]"] show ?thesis by (simp add: addKey_def)
  qed
qed

lemma mapSet_keys:
  "mapSet (map (\<lambda>k. (k, f k)) ks) d (f d) = map (\<lambda>k. (k, f k)) (addKey ks d)"
  by (induction ks) (auto simp: addKey_def)

lemma foldl_addDim:
  "foldl (addDim boxes pallet) (map (\<lambda>k. (k, dimScore boxes k)) ks) ds
   = map (\<lambda>k. (k, dimScore boxes k)) (foldl addKey ks (filter (\<lambda>d. d \<le> p_h pallet) ds))"
proof (induction ds arbitrary: ks)
  case Nil
  show ?case by simp
next
  case (Cons d ds)
  show ?case using Cons[of "addKey ks d"] Cons[of ks]
    by (simp add: addDim_def mapSet_keys)
qed

lemma foldl_boxes_dims:
  "foldl (\<lambda>heights box. foldl f heights [b_w box, b_h box, b_d box]) hs bs
   = foldl f hs (allDims bs)"
  by (induction bs arbitrary: hs) (simp_all add: allDims_def)

lemma dimScore_spec: "dimScore boxes d = specScore boxes d"
proof -
  have "foldl (\<lambda>score b. score + closest b d) a bs
        = a + sum_list (map (\<lambda>b. Min {abs (b_w b - d), abs (b_h b - d), abs (b_d b - d)}) bs)"
    for a bs
    by (induction bs arbitrary: a) (auto simp: closest_def min.commute min.left_commute)
  then show ?thesis by (simp add: dimScore_def specScore_def)
qed

lemma set_firstOccurrences: "set (firstOccurrences xs) = set xs"
  by (induction xs) auto

lemma distinct_firstOccurrences: "distinct (firstOccurrences xs)"
  by (induction xs) (auto simp: set_firstOccurrences)

lemma buildLayerCandidates_spec:
  "buildLayerCandidates boxes pallet = specLayerCandidates boxes pallet"
proof -
  have "foldl (\<lambda>heights box. foldl (addDim boxes pallet) heights [b_w box, b_h box, b_d box]) [] boxes
        = foldl (addDim boxes pallet) [] (allDims boxes)"
    by (rule foldl_boxes_dims)
  also have "\<dots> = map (\<lambda>k. (k, dimScore boxes k))
            (firstOccurrences (filter (\<lambda>d. d \<le> p_h pallet) (allDims boxes)))"
    using foldl_addDim[of boxes pallet "[]" "allDims boxes"]
    by (simp add: foldl_addKey)
  finally show ?thesis
    by (simp add: buildLayerCandidates_def specLayerCandidates_def Let_def dimScore_spec comp_def)
qed

text \<open>
  C7.  buildLayerCandidates returns one candidate per distinct box dimension that does
  not exceed the pallet height; the score of each is the sum over all box types of the
  least absolute difference between the type's three dimensions and the height; the
  list is sorted ascending by score, and candidates of equal score keep the order of
  first occurrence of their heights.
\<close>

theorem buildLayerCandidates_correct:
  "buildLayerCandidates boxes pallet = specLayerCandidates boxes pallet
   \<and> distinct (map height (buildLayerCandidates boxes pallet))
   \<and> set (map height (buildLayerCandidates boxes pallet))
       = {d \<in> set (allDims boxes). d \<le> p_h pallet}
   \<and> (\<forall>c \<in> set (buildLayerCandidates boxes pallet). evalScore c = specScore boxes (height c))
   \<and> sorted (map evalScore (buildLayerCandidates boxes pallet))
   \<and> (\<forall>k. map height (filter (\<lambda>c. evalScore c = k) (buildLayerCandidates boxes pallet))
          = filter (\<lambda>h. specScore boxes h = k)
              (firstOccurrences (filter (\<lambda>d. d \<le> p_h pallet) (allDims boxes))))"
proof -
  let ?hs = "firstOccurrences (filter (\<lambda>d. d \<le> p_h pallet) (allDims boxes))"
  let ?cs = "map (\<lambda>h. \<lparr>height = h, evalScore = specScore boxes h\<rparr>) ?hs"
  have eq: "buildLayerCandidates boxes pallet = sort_key evalScore ?cs"
    by (simp add: buildLayerCandidates_spec specLayerCandidates_def)
  have 1: "distinct (map height (sort_key evalScore ?cs))"
  proof -
    have "distinct (map height ?cs)" by (simp add: comp_def distinct_firstOccurrences)
    then show ?thesis by (simp only: distinct_map distinct_sort set_sort)
  qed
  have 2: "set (map height (sort_key evalScore ?cs)) = {d \<in> set (allDims boxes). d \<le> p_h pallet}"
    by (auto simp: set_firstOccurrences image_iff)
  have 3: "\<forall>c \<in> set (sort_key evalScore ?cs). evalScore c = specScore boxes (height c)"
    by auto
  have 4: "sorted (map evalScore (sort_key evalScore ?cs))"
    by (rule sorted_sort_key)
  have 5: "map height (filter (\<lambda>c. evalScore c = k) (sort_key evalScore ?cs))
           = filter (\<lambda>h. specScore boxes h = k) ?hs" for k
    by (simp add: sort_key_stable filter_map comp_def)
  from eq 1 2 3 4 5 buildLayerCandidates_spec show ?thesis by simp
qed

theorem buildLayerCandidates_correct_witness:
  "\<lparr>height = 30, evalScore = 25\<rparr>
     \<in> set (buildLayerCandidates
              [\<lparr>b_id = ''A'', b_w = 20, b_h = 10, b_d = 15, b_qty = 10\<rparr>,
               \<lparr>b_id = ''B'', b_w = 15, b_h = 15, b_d = 15, b_qty = 5\<rparr>,
               \<lparr>b_id = ''C'', b_w = 10, b_h = 20, b_d = 30, b_qty = 3\<rparr>]
              \<lparr>p_w = 84, p_h = 96, p_d = 104\<rparr>)
   \<and> specScore [\<lparr>b_id = ''A'', b_w = 20, b_h = 10, b_d = 15, b_qty = 10\<rparr>,
                 \<lparr>b_id = ''B'', b_w = 15, b_h = 15, b_d = 15, b_qty = 5\<rparr>,
                 \<lparr>b_id = ''C'', b_w = 10, b_h = 20, b_d = 30, b_qty = 3\<rparr>] 30 = 25"
proof -
  let ?bs = "[\<lparr>b_id = ''A'', b_w = 20, b_h = 10, b_d = 15, b_qty = 10\<rparr>,
              \<lparr>b_id = ''B'', b_w = 15, b_h = 15, b_d = 15, b_qty = 5\<rparr>,
              \<lparr>b_id = ''C'', b_w = 10, b_h = 20, b_d = 30, b_qty = 3\<rparr>]"
  let ?p = "\<lparr>p_w = 84, p_h = 96, p_d = 104\<rparr>"
  have m: "\<lparr>height = 30, evalScore = 25\<rparr> \<in> set (buildLayerCandidates ?bs ?p)"
    by code_simp
  from buildLayerCandidates_correct[of ?bs ?p]
  have "\<forall>c \<in> set (buildLayerCandidates ?bs ?p). evalScore c = specScore ?bs (height c)"
    by blast
  with m have "evalScore \<lparr>height = 30, evalScore = 25\<rparr>
               = specScore ?bs (height \<lparr>height = 30, evalScore = 25\<rparr>)"
    by blast
  with m show ?thesis by simp
qed

section \<open>The orientation enumerator\<close>

lemma digitChar_cases: "n < 10 \<Longrightarrow> n \<in> {0, 1, 2, 3, 4, 5, 6, 7, 8, 9 :: nat}"
  by auto

lemma digitChar_inj:
  assumes "n < 10" and "m < 10" and "digitChar n = digitChar m"
  shows "n = m"
  using digitChar_cases[OF assms(1)] digitChar_cases[OF assms(2)] assms(3)
  by (auto simp: digitChar_def)

lemma digitChar_plain:
  assumes "n < 10"
  shows "digitChar n \<noteq> CHR '','' \<and> digitChar n \<noteq> CHR ''-''"
  using digitChar_cases[OF assms] by (auto simp: digitChar_def)

declare natString.simps [simp del]

lemma natString_plain: "c \<in> set (natString n) \<Longrightarrow> c \<noteq> CHR '','' \<and> c \<noteq> CHR ''-''"
proof (induction n rule: natString.induct)
  case (1 n)
  show ?case
  proof (cases "n < 10")
    case True
    with 1(2) show ?thesis using digitChar_plain[of n] by (simp add: natString.simps[of n])
  next
    case False
    with 1 show ?thesis using digitChar_plain[of "n mod 10"]
      by (auto simp: natString.simps[of n])
  qed
qed

lemma natString_nonempty: "natString n \<noteq> []"
  by (simp add: natString.simps[of n])

lemma natString_inj: "natString n = natString m \<Longrightarrow> n = m"
proof (induction n arbitrary: m rule: natString.induct)
  case (1 n)
  show ?case
  proof (cases "n < 10")
    case True
    show ?thesis
    proof (cases "m < 10")
      case m: True
      with True 1(2) show ?thesis
        by (simp add: natString.simps[of n] natString.simps[of m] digitChar_inj)
    next
      case False
      with True 1(2) show ?thesis
        using natString_nonempty[of "m div 10"]
        by (simp add: natString.simps[of n] natString.simps[of m])
    qed
  next
    case False
    show ?thesis
    proof (cases "m < 10")
      case True
      with False 1(2) show ?thesis
        using natString_nonempty[of "n div 10"]
        by (simp add: natString.simps[of n] natString.simps[of m])
    next
      case m: False
      with False 1(2) have "natString (n div 10) = natString (m div 10)"
        and "digitChar (n mod 10) = digitChar (m mod 10)"
        by (simp_all add: natString.simps[of n] natString.simps[of m])
      with 1(1)[OF False] have "n div 10 = m div 10" "n mod 10 = m mod 10"
        by (auto intro: digitChar_inj)
      then show ?thesis by (metis div_mult_mod_eq)
    qed
  qed
qed

lemma numString_plain: "CHR '','' \<notin> set (numString i)"
  using natString_plain by (auto simp: numString_def)

lemma numString_inj: "numString i = numString j \<Longrightarrow> i = j"
proof -
  assume a: "numString i = numString j"
  have neg: "hd (natString n) \<noteq> CHR ''-''" for n
    using natString_plain[of "hd (natString n)" n] natString_nonempty[of n] by simp
  from a have h: "hd (numString i) = hd (numString j)" by simp
  have "(i < 0) = (j < 0)"
  proof (rule ccontr)
    assume "(i < 0) \<noteq> (j < 0)"
    with h neg[of "nat i"] neg[of "nat j"] show False
      by (auto simp: numString_def split: if_splits)
  qed
  with a have "nat (- i) = nat (- j) \<and> nat i = nat j"
    by (auto simp: numString_def dest: natString_inj split: if_splits)
  with \<open>(i < 0) = (j < 0)\<close> show ?thesis by linarith
qed

lemma split_at_sep:
  assumes "xs @ c # ys = xs' @ c # ys'" and "c \<notin> set xs" and "c \<notin> set xs'"
  shows "xs = xs' \<and> ys = ys'"
  using assms
proof (induction xs arbitrary: xs')
  case Nil
  then show ?case by (cases xs') auto
next
  case (Cons x xs)
  then show ?case by (cases xs') auto
qed

lemma key_inj: "key s = key t \<longleftrightarrow> s = t"
proof
  assume k: "key s = key t"
  obtain a b c where s: "s = (a, b, c)" by (cases s)
  obtain a' b' c' where t: "t = (a', b', c')" by (cases t)
  from k s t have e: "numString a @ CHR '','' # (numString b @ CHR '','' # numString c)
       = numString a' @ CHR '','' # (numString b' @ CHR '','' # numString c')"
    by (simp add: key_def)
  from split_at_sep[OF e numString_plain numString_plain]
  have 1: "numString a = numString a'"
    and 2: "numString b @ CHR '','' # numString c = numString b' @ CHR '','' # numString c'"
    by auto
  from split_at_sep[OF 2 numString_plain numString_plain] 1
  show "s = t" using s t by (auto dest: numString_inj)
qed simp

lemma filterSeen_eq:
  "filterSeen (key ` S) ts = filter (\<lambda>t. t \<notin> S) (firstOccurrences ts)"
proof (induction ts arbitrary: S)
  case Nil
  show ?case by simp
next
  case (Cons t ts)
  have k: "key t \<in> key ` S \<longleftrightarrow> t \<in> S" by (auto simp: key_inj)
  show ?case
  proof (cases "t \<in> S")
    case True
    have "filter (\<lambda>t. t \<notin> S) (filter (\<lambda>y. y \<noteq> t) (firstOccurrences ts)) = filter (\<lambda>t. t \<notin> S) (firstOccurrences ts)"
      using True by (auto intro: filter_cong)
    with True k Cons show ?thesis by simp
  next
    case False
    have "filter (\<lambda>u. u \<notin> insert t S) (firstOccurrences ts)
          = filter (\<lambda>t. t \<notin> S) (filter (\<lambda>y. y \<noteq> t) (firstOccurrences ts))"
      by (auto intro: filter_cong)
    with False k Cons[of "insert t S"] show ?thesis by simp
  qed
qed

lemma getPalletOrientations_eq:
  "getPalletOrientations \<lparr>p_w = a, p_h = b, p_d = c\<rparr> = map toPallet (firstOccurrences (perms6 a b c))"
  using filterSeen_eq[of "{}" "perms6 a b c"]
  by (simp add: getPalletOrientations_def perms6_def toPallet_def[abs_def] Let_def)

lemma length_firstOccurrences: "length (firstOccurrences xs) \<le> length xs"
proof (induction xs)
  case Nil
  show ?case by simp
next
  case (Cons x xs)
  from le_trans[OF length_filter_le Cons] show ?case by simp
qed

lemma inj_toPallet: "inj toPallet"
  by (auto simp: inj_on_def toPallet_def)

text \<open>
  C8.  getPalletOrientations returns the six permutations in the canonical order with
  every triple kept at its first occurrence only: all six when the three values differ,
  three when exactly two coincide, one when all coincide, and always between one and
  six.
\<close>

theorem getPalletOrientations_dedup:
  "getPalletOrientations \<lparr>p_w = a, p_h = b, p_d = c\<rparr> = map toPallet (firstOccurrences (perms6 a b c))
   \<and> distinct (getPalletOrientations \<lparr>p_w = a, p_h = b, p_d = c\<rparr>)
   \<and> set (getPalletOrientations \<lparr>p_w = a, p_h = b, p_d = c\<rparr>) = toPallet ` set (perms6 a b c)
   \<and> (a \<noteq> b \<and> b \<noteq> c \<and> a \<noteq> c \<longrightarrow>
        getPalletOrientations \<lparr>p_w = a, p_h = b, p_d = c\<rparr> = map toPallet (perms6 a b c)
        \<and> length (getPalletOrientations \<lparr>p_w = a, p_h = b, p_d = c\<rparr>) = 6)
   \<and> ((a = b \<and> b \<noteq> c) \<or> (a = c \<and> b \<noteq> c) \<or> (b = c \<and> a \<noteq> b) \<longrightarrow>
        length (getPalletOrientations \<lparr>p_w = a, p_h = b, p_d = c\<rparr>) = 3)
   \<and> (a = b \<and> b = c \<longrightarrow>
        getPalletOrientations \<lparr>p_w = a, p_h = b, p_d = c\<rparr> = [\<lparr>p_w = a, p_h = a, p_d = a\<rparr>])
   \<and> 1 \<le> length (getPalletOrientations \<lparr>p_w = a, p_h = b, p_d = c\<rparr>)
   \<and> length (getPalletOrientations \<lparr>p_w = a, p_h = b, p_d = c\<rparr>) \<le> 6"
proof -
  let ?r = "getPalletOrientations \<lparr>p_w = a, p_h = b, p_d = c\<rparr>"
  note eq = getPalletOrientations_eq[of a b c]
  have "inj_on toPallet (set (firstOccurrences (perms6 a b c)))"
    using inj_toPallet by (rule inj_on_subset) simp
  then have 1: "distinct ?r"
    unfolding eq by (simp add: distinct_map distinct_firstOccurrences)
  have 2: "set ?r = toPallet ` set (perms6 a b c)"
    unfolding eq by (simp add: set_firstOccurrences)
  have 3: "?r = map toPallet (perms6 a b c) \<and> length ?r = 6"
    if "a \<noteq> b \<and> b \<noteq> c \<and> a \<noteq> c"
    unfolding eq using that by (simp add: perms6_def)
  have 4: "length ?r = 3" if "(a = b \<and> b \<noteq> c) \<or> (a = c \<and> b \<noteq> c) \<or> (b = c \<and> a \<noteq> b)"
    unfolding eq using that by (auto simp: perms6_def)
  have 5: "?r = [\<lparr>p_w = a, p_h = a, p_d = a\<rparr>]" if "a = b \<and> b = c"
    unfolding eq using that by (simp add: perms6_def toPallet_def)
  have 6: "1 \<le> length ?r"
    unfolding eq by (simp add: perms6_def)
  have 7: "length ?r \<le> 6"
    unfolding eq using length_firstOccurrences[of "perms6 a b c"] by (simp add: perms6_def)
  from eq 1 2 3 4 5 6 7 show ?thesis by blast
qed

theorem getPalletOrientations_dedup_witness:
  "length (getPalletOrientations \<lparr>p_w = 84, p_h = 96, p_d = 104\<rparr>) = 6
   \<and> length (getPalletOrientations \<lparr>p_w = 84, p_h = 84, p_d = 104\<rparr>) = 3
   \<and> getPalletOrientations \<lparr>p_w = 84, p_h = 84, p_d = 84\<rparr> = [\<lparr>p_w = 84, p_h = 84, p_d = 84\<rparr>]"
proof -
  have a: "(84::int) \<noteq> 96 \<and> (96::int) \<noteq> 104 \<and> (84::int) \<noteq> 104" by simp
  have b: "((84::int) = 84 \<and> (84::int) \<noteq> 104) \<or> ((84::int) = 104 \<and> (84::int) \<noteq> 104)
           \<or> ((84::int) = 104 \<and> (84::int) \<noteq> 84)" by simp
  have c: "(84::int) = 84 \<and> (84::int) = 84" by simp
  from a getPalletOrientations_dedup[of 84 96 104]
  have 1: "length (getPalletOrientations \<lparr>p_w = 84, p_h = 96, p_d = 104\<rparr>) = 6" by blast
  from b getPalletOrientations_dedup[of 84 84 104]
  have 2: "length (getPalletOrientations \<lparr>p_w = 84, p_h = 84, p_d = 104\<rparr>) = 3" by blast
  from c getPalletOrientations_dedup[of 84 84 84]
  have 3: "getPalletOrientations \<lparr>p_w = 84, p_h = 84, p_d = 84\<rparr> = [\<lparr>p_w = 84, p_h = 84, p_d = 84\<rparr>]"
    by blast
  from 1 2 3 show ?thesis by blast
qed

section \<open>The skyline profile\<close>

lemma mergeNodes_Nil: "mergeNodes [] = []"
  by (simp add: mergeNodes_def)

lemma mergeNodes_snoc: "mergeNodes (ns @ [n]) = mergeStep (mergeNodes ns) n"
  by (simp add: mergeNodes_def)

lemma mergeStep_cases:
  "mergeStep out n = [n] \<and> out = []
   \<or> (out \<noteq> [] \<and> n_z (last out) = n_z n \<and> mergeStep out n = butlast out @ [(last out)\<lparr>n_x := n_x n\<rparr>])
   \<or> (out \<noteq> [] \<and> n_z (last out) \<noteq> n_z n \<and> mergeStep out n = out @ [n])"
  by (simp add: mergeStep_def Let_def)

lemma mergeStep_nonempty: "mergeStep out n \<noteq> []"
  using mergeStep_cases[of out n] by auto

lemma mergeStep_last: "n_x (last (mergeStep out n)) = n_x n \<and> n_z (last (mergeStep out n)) = n_z n"
  using mergeStep_cases[of out n] by auto

lemma mergeStep_mem:
  assumes "a \<in> set (mergeStep out n)"
  shows "a \<in> set out \<or> a = n
         \<or> (out \<noteq> [] \<and> a = (last out)\<lparr>n_x := n_x n\<rparr> \<and> n_z (last out) = n_z n)"
  using mergeStep_cases[of out n] assms by (auto dest: in_set_butlastD)

lemma mergeStep_xs:
  assumes "a \<in> set (mergeStep out n)"
  shows "n_x a \<in> n_x ` set out \<or> n_x a = n_x n"
  using mergeStep_mem[OF assms] by auto

lemma mergeStep_zs:
  assumes "a \<in> set (mergeStep out n)"
  shows "n_z a \<in> n_z ` set out \<or> n_z a = n_z n"
proof -
  from mergeStep_mem[OF assms]
  consider "a \<in> set out" | "a = n" | "out \<noteq> []" "a = (last out)\<lparr>n_x := n_x n\<rparr>"
    by blast
  then show ?thesis
  proof cases
    case 3
    then have "n_z a = n_z (last out)" "last out \<in> set out" by simp_all
    then show ?thesis by (metis imageI)
  qed auto
qed

lemma mergeStep_adj:
  assumes "distinct_adj (map n_z out)"
  shows "distinct_adj (map n_z (mergeStep out n))"
proof -
  consider "mergeStep out n = [n]"
    | "out \<noteq> []" "n_z (last out) = n_z n" "mergeStep out n = butlast out @ [(last out)\<lparr>n_x := n_x n\<rparr>]"
    | "out \<noteq> []" "n_z (last out) \<noteq> n_z n" "mergeStep out n = out @ [n]"
    using mergeStep_cases[of out n] by blast
  then show ?thesis
  proof cases
    case 1
    then show ?thesis by simp
  next
    case 2
    have "map n_z (butlast out @ [(last out)\<lparr>n_x := n_x n\<rparr>]) = map n_z (butlast out @ [last out])"
      by simp
    with 2 assms show ?thesis by simp
  next
    case 3
    with assms show ?thesis by (simp add: distinct_adj_append_iff last_map)
  qed
qed

lemma mergeStep_sorted:
  assumes "sorted_wrt (<) (map n_x out)" and "\<forall>a \<in> set out. n_x a < n_x n"
  shows "sorted_wrt (<) (map n_x (mergeStep out n))"
proof -
  consider "mergeStep out n = [n]"
    | "out \<noteq> []" "mergeStep out n = butlast out @ [(last out)\<lparr>n_x := n_x n\<rparr>]"
    | "mergeStep out n = out @ [n]"
    using mergeStep_cases[of out n] by blast
  then show ?thesis
  proof cases
    case 1
    then show ?thesis by simp
  next
    case 2
    from 2(1) have "out = butlast out @ [last out]" by simp
    with assms(1) have "sorted_wrt (<) (map n_x (butlast out @ [last out]))" by simp
    then have "sorted_wrt (<) (map n_x (butlast out))" by (simp add: sorted_wrt_append)
    moreover have "\<forall>a \<in> set (butlast out). n_x a < n_x n"
      using assms(2) by (auto dest: in_set_butlastD)
    ultimately show ?thesis using 2 by (simp add: sorted_wrt_append)
  next
    case 3
    with assms show ?thesis by (simp add: sorted_wrt_append)
  qed
qed

lemma mergeNodes_props:
  "(mergeNodes ns = [] \<longleftrightarrow> ns = [])
   \<and> (ns \<noteq> [] \<longrightarrow> n_x (last (mergeNodes ns)) = n_x (last ns)
                    \<and> n_z (last (mergeNodes ns)) = n_z (last ns))
   \<and> (\<forall>a \<in> set (mergeNodes ns). n_x a \<in> n_x ` set ns)
   \<and> (\<forall>a \<in> set (mergeNodes ns). n_z a \<in> n_z ` set ns)
   \<and> distinct_adj (map n_z (mergeNodes ns))
   \<and> (sorted_wrt (<) (map n_x ns) \<longrightarrow> sorted_wrt (<) (map n_x (mergeNodes ns)))"
proof (induction ns rule: rev_induct)
  case Nil
  show ?case by (simp add: mergeNodes_Nil)
next
  case (snoc n ns)
  let ?M = "mergeNodes ns"
  from snoc have ix: "\<forall>a \<in> set ?M. n_x a \<in> n_x ` set ns"
    and iz: "\<forall>a \<in> set ?M. n_z a \<in> n_z ` set ns"
    and ia: "distinct_adj (map n_z ?M)"
    and isx: "sorted_wrt (<) (map n_x ns) \<longrightarrow> sorted_wrt (<) (map n_x ?M)"
    by blast+
  have 1: "mergeNodes (ns @ [n]) \<noteq> []" by (simp add: mergeNodes_snoc mergeStep_nonempty)
  have 2: "n_x (last (mergeNodes (ns @ [n]))) = n_x n \<and> n_z (last (mergeNodes (ns @ [n]))) = n_z n"
    by (simp add: mergeNodes_snoc mergeStep_last)
  have 3: "\<forall>a \<in> set (mergeNodes (ns @ [n])). n_x a \<in> n_x ` set (ns @ [n])"
  proof
    fix a assume "a \<in> set (mergeNodes (ns @ [n]))"
    then have "a \<in> set (mergeStep ?M n)" by (simp add: mergeNodes_snoc)
    from mergeStep_xs[OF this] ix show "n_x a \<in> n_x ` set (ns @ [n])" by auto
  qed
  have 4: "\<forall>a \<in> set (mergeNodes (ns @ [n])). n_z a \<in> n_z ` set (ns @ [n])"
  proof
    fix a assume "a \<in> set (mergeNodes (ns @ [n]))"
    then have "a \<in> set (mergeStep ?M n)" by (simp add: mergeNodes_snoc)
    from mergeStep_zs[OF this] iz show "n_z a \<in> n_z ` set (ns @ [n])" by auto
  qed
  have 5: "distinct_adj (map n_z (mergeNodes (ns @ [n])))"
    using ia by (simp add: mergeNodes_snoc mergeStep_adj)
  have 6: "sorted_wrt (<) (map n_x (mergeNodes (ns @ [n])))"
    if s: "sorted_wrt (<) (map n_x (ns @ [n]))"
  proof -
    from s have a: "sorted_wrt (<) (map n_x ns)" and b: "\<forall>a \<in> set ns. n_x a < n_x n"
      by (auto simp: sorted_wrt_append)
    from ix b have "\<forall>a \<in> set ?M. n_x a < n_x n" by auto
    with a isx show ?thesis by (simp add: mergeNodes_snoc mergeStep_sorted)
  qed
  from 1 2 3 4 5 6 show ?case by simp
qed

lemma xsorted_map: "sorted_wrt (<) (map n_x nodes) = xsorted nodes"
  by (simp add: xsorted_def sorted_wrt_map)

lemma dropWhile_keeps_last:
  assumes "xs \<noteq> []" and "\<not> P (last xs)"
  shows "dropWhile P xs \<noteq> [] \<and> last (dropWhile P xs) = last xs"
  using assms by (induction xs) (auto split: if_splits)

lemma xsorted_dropWhile_gt:
  assumes "xsorted xs" and "a \<in> set (dropWhile (\<lambda>n. n_x n \<le> r) xs)"
  shows "r < n_x a"
proof -
  let ?d = "dropWhile (\<lambda>n. n_x n \<le> r) xs"
  from assms(2) have ne: "?d \<noteq> []" by (metis empty_iff list.set(1))
  from hd_dropWhile[OF ne] have h: "r < n_x (hd ?d)" by simp
  from assms(1) have "sorted_wrt (\<lambda>a b. n_x a < n_x b) ?d"
    unfolding xsorted_def by (rule sorted_wrt_dropWhile)
  with ne have "sorted_wrt (\<lambda>a b. n_x a < n_x b) (hd ?d # tl ?d)" by simp
  then have "\<forall>b \<in> set (tl ?d). n_x (hd ?d) < n_x b" by simp
  moreover from assms(2) ne have "a = hd ?d \<or> a \<in> set (tl ?d)"
    by (metis list.collapse set_ConsD)
  ultimately show ?thesis using h by auto
qed

lemma find_Some_mem: "find P xs = Some x \<Longrightarrow> x \<in> set xs"
  by (induction xs) (auto split: if_splits)

lemma zAfter_mem:
  "(case find P (rev nodes) of Some n \<Rightarrow> n_z n | None \<Rightarrow> 0) \<in> n_z ` set nodes \<union> {0}"
proof (cases "find P (rev nodes)")
  case None
  then show ?thesis by simp
next
  case (Some n)
  then have "n \<in> set nodes" by (auto dest: find_Some_mem)
  with Some show ?thesis by simp
qed

lemma skylineUpdate_profile:
  assumes ne: "nodes \<noteq> []" and srt: "xsorted nodes"
    and xl: "x < n_x (last nodes)" and bw: "0 < bw"
  shows "\<exists>nodes'. skylineUpdate nodes x bw newTop = Inr nodes' \<and> nodes' \<noteq> []
           \<and> xsorted nodes' \<and> n_x (last nodes') = n_x (last nodes)
           \<and> distinct_adj (map n_z nodes')
           \<and> (\<forall>a \<in> set nodes'. n_x a \<in> n_x ` set nodes \<union> {x, x + bw})
           \<and> (\<forall>a \<in> set nodes'. n_z a \<in> n_z ` set nodes \<union> {newTop, 0})"
proof -
  define rightX where "rightX = x + bw"
  define kept where "kept = takeWhile (\<lambda>n. n_x n < x) nodes"
  define out1 where "out1 = kept @ [\<lparr>n_x = x, n_z = newTop\<rparr>]"
  define mid where "mid = dropWhile (\<lambda>n. n_x n < x) nodes"
  define rest where "rest = dropWhile (\<lambda>n. n_x n \<le> rightX) mid"
  define zAfter where
    "zAfter = (case find (\<lambda>n. n_x n \<le> rightX) (rev nodes) of Some n \<Rightarrow> n_z n | None \<Rightarrow> 0)"
  define out2 where
    "out2 = (if rightX < n_x (last nodes)
             then (if zAfter \<noteq> newTop then out1 @ [\<lparr>n_x = rightX, n_z = zAfter\<rparr>] else out1) @ rest
             else out1 @ [\<lparr>n_x = n_x (last nodes), n_z = n_z (last nodes)\<rparr>])"
  have kept_lt: "\<forall>a \<in> set kept. n_x a < x"
    unfolding kept_def by (auto dest: set_takeWhileD)
  have kept_sub: "set kept \<subseteq> set nodes"
    unfolding kept_def by (auto dest: set_takeWhileD)
  have kept_sorted: "xsorted kept"
    using srt unfolding kept_def xsorted_def by (rule sorted_wrt_takeWhile)
  have cond: "kept = [] \<or> n_x (last kept) \<noteq> x"
  proof (cases "kept = []")
    case False
    then have "last kept \<in> set kept" by simp
    with kept_lt show ?thesis by auto
  qed simp
  have mid_eq: "drop (length kept) nodes = mid"
    unfolding mid_def kept_def by (simp add: dropWhile_eq_drop)
  have mid_sorted: "xsorted mid"
    using srt unfolding mid_def xsorted_def by (rule sorted_wrt_dropWhile)
  have mid_last: "mid \<noteq> [] \<and> last mid = last nodes"
    unfolding mid_def using dropWhile_keeps_last[OF ne, of "\<lambda>n. n_x n < x"] xl by simp
  have rest_sub: "set rest \<subseteq> set nodes"
    unfolding rest_def mid_def by (auto dest: set_dropWhileD)
  have rest_gt: "\<forall>a \<in> set rest. rightX < n_x a"
    unfolding rest_def using xsorted_dropWhile_gt[OF mid_sorted] by blast
  have rest_sorted: "xsorted rest"
    using mid_sorted unfolding rest_def xsorted_def by (rule sorted_wrt_dropWhile)
  have rest_last: "rest \<noteq> [] \<and> last rest = last nodes" if "rightX < n_x (last nodes)"
    unfolding rest_def
    using dropWhile_keeps_last[of mid "\<lambda>n. n_x n \<le> rightX"] mid_last that by simp
  have zA: "zAfter \<in> n_z ` set nodes \<union> {0}"
    unfolding zAfter_def by (rule zAfter_mem)
  have upd: "skylineUpdate nodes x bw newTop = Inr (mergeNodes out2)"
    using ne cond
    by (simp add: skylineUpdate_def Let_def out2_def out1_def rest_def mid_eq
        kept_def[symmetric] rightX_def[symmetric] zAfter_def[symmetric])
  have x_lt: "x < rightX" using bw by (simp add: rightX_def)
  have o1_sorted: "xsorted out1"
    using kept_sorted kept_lt by (simp add: out1_def xsorted_def sorted_wrt_append)
  have o1_lt: "\<forall>a \<in> set out1. n_x a < rightX"
    using kept_lt x_lt by (auto simp: out1_def)
  have o2_ne: "out2 \<noteq> []" by (simp add: out2_def out1_def)
  have o2_sorted: "xsorted out2"
  proof (cases "rightX < n_x (last nodes)")
    case True
    have "xsorted (out1 @ rest)"
      using o1_sorted rest_sorted o1_lt rest_gt
      by (fastforce simp: xsorted_def sorted_wrt_append)
    moreover have "xsorted ((out1 @ [\<lparr>n_x = rightX, n_z = zAfter\<rparr>]) @ rest)"
      using o1_sorted rest_sorted o1_lt rest_gt
      by (fastforce simp: xsorted_def sorted_wrt_append)
    ultimately show ?thesis using True by (simp add: out2_def)
  next
    case False
    have "\<forall>a \<in> set out1. n_x a < n_x (last nodes)"
      using kept_lt xl by (auto simp: out1_def)
    with o1_sorted False show ?thesis
      by (simp add: out2_def xsorted_def sorted_wrt_append)
  qed
  have o2_last: "n_x (last out2) = n_x (last nodes)"
    using rest_last by (simp add: out2_def)
  have o2_xs: "\<forall>a \<in> set out2. n_x a \<in> n_x ` set nodes \<union> {x, x + bw}"
    using kept_sub rest_sub ne
    by (auto simp: out2_def out1_def rightX_def split: if_splits)
  have o2_zs: "\<forall>a \<in> set out2. n_z a \<in> n_z ` set nodes \<union> {newTop, 0}"
    using kept_sub rest_sub ne zA
    by (auto simp: out2_def out1_def split: if_splits)
  note mp = mergeNodes_props[of out2]
  have "mergeNodes out2 \<noteq> []" using mp o2_ne by simp
  moreover have "xsorted (mergeNodes out2)"
    using mp o2_sorted by (simp add: xsorted_map)
  moreover have "n_x (last (mergeNodes out2)) = n_x (last nodes)"
    using mp o2_ne o2_last by simp
  moreover have "distinct_adj (map n_z (mergeNodes out2))" using mp by simp
  moreover have "\<forall>a \<in> set (mergeNodes out2). n_x a \<in> n_x ` set nodes \<union> {x, x + bw}"
    using mp o2_xs by (metis (no_types, lifting) imageE)
  moreover have "\<forall>a \<in> set (mergeNodes out2). n_z a \<in> n_z ` set nodes \<union> {newTop, 0}"
    using mp o2_zs by (metis (no_types, lifting) imageE)
  ultimately show ?thesis using upd by blast
qed

section \<open>One scan over the gaps\<close>

lemma foldl_maxAcc: "foldl maxAcc (Some a) zs = Some (Max (set (a # zs)))"
proof (induction zs arbitrary: a)
  case Nil
  show ?case by simp
next
  case (Cons z zs)
  have "Max (set (max a z # zs)) = Max (set (a # z # zs))"
    by (cases "zs = []") (simp_all add: max.assoc)
  with Cons[of "max a z"] show ?case by simp
qed


lemma maxOf_Cons: "maxOf (z # zs) = Some (Max (set (z # zs)))"
  by (simp add: maxOf_def foldl_maxAcc)

declare findSpan.simps [simp del]













section \<open>The loop of the layer packer\<close>





section \<open>Conservation of the quantities\<close>







section \<open>Containment, the choice of the gap, and the first node\<close>










text \<open>
  C1.  The claim is that a commit keeps the first node at \<open>x = 0\<close>.  In the run of
  packLayerSkyline on eight 5-cubes and a pallet of width 10 and depth 10, the third
  commit is skylineUpdate on the profile \<open>[(0, 10), (5, 5), (10, 0)]\<close>, which
  satisfies the invariants, with \<open>x = 5\<close>, width 5 and new top 10: mergeNodes moves
  the first node to \<open>x = 5\<close>, and the result \<open>[(5, 10), (10, 0)]\<close> does not start
  at 0.
\<close>

theorem skylineUpdate_first_node_moves:
  "scanGaps [\<lparr>b_id = ''A'', b_w = 5, b_h = 5, b_d = 5, b_qty = 8\<rparr>]
     \<lparr>p_w = 10, p_h = 20, p_d = 10\<rparr> 10 0
     [\<lparr>n_x = 0, n_z = 0\<rparr>, \<lparr>n_x = 10, n_z = 0\<rparr>] [0 ..< 1]
   = Commit [\<lparr>n_x = 0, n_z = 5\<rparr>, \<lparr>n_x = 10, n_z = 0\<rparr>]
       [\<lparr>b_id = ''A'', b_w = 5, b_h = 5, b_d = 5, b_qty = 7\<rparr>]
       \<lparr>b_id = ''A'', b_w = 5, b_h = 5, b_d = 5, b_qty = 1, pl_x = 0,
        pl_y = 0, pl_z = 0, pl_orientation = (5, 5, 5)\<rparr>
   \<and> scanGaps [\<lparr>b_id = ''A'', b_w = 5, b_h = 5, b_d = 5, b_qty = 7\<rparr>]
       \<lparr>p_w = 10, p_h = 20, p_d = 10\<rparr> 10 0
       [\<lparr>n_x = 0, n_z = 5\<rparr>, \<lparr>n_x = 10, n_z = 0\<rparr>] [0 ..< 1]
     = Commit [\<lparr>n_x = 0, n_z = 10\<rparr>, \<lparr>n_x = 5, n_z = 5\<rparr>, \<lparr>n_x = 10, n_z = 0\<rparr>]
         [\<lparr>b_id = ''A'', b_w = 5, b_h = 5, b_d = 5, b_qty = 6\<rparr>]
         \<lparr>b_id = ''A'', b_w = 5, b_h = 5, b_d = 5, b_qty = 1, pl_x = 0,
          pl_y = 0, pl_z = 5, pl_orientation = (5, 5, 5)\<rparr>
   \<and> scanGaps [\<lparr>b_id = ''A'', b_w = 5, b_h = 5, b_d = 5, b_qty = 6\<rparr>]
       \<lparr>p_w = 10, p_h = 20, p_d = 10\<rparr> 10 0
       [\<lparr>n_x = 0, n_z = 10\<rparr>, \<lparr>n_x = 5, n_z = 5\<rparr>, \<lparr>n_x = 10, n_z = 0\<rparr>] [0 ..< 2]
     = Commit [\<lparr>n_x = 5, n_z = 10\<rparr>, \<lparr>n_x = 10, n_z = 0\<rparr>]
         [\<lparr>b_id = ''A'', b_w = 5, b_h = 5, b_d = 5, b_qty = 5\<rparr>]
         \<lparr>b_id = ''A'', b_w = 5, b_h = 5, b_d = 5, b_qty = 1, pl_x = 5,
          pl_y = 0, pl_z = 5, pl_orientation = (5, 5, 5)\<rparr>
   \<and> profileInv 10 [\<lparr>n_x = 0, n_z = 10\<rparr>, \<lparr>n_x = 5, n_z = 5\<rparr>, \<lparr>n_x = 10, n_z = 0\<rparr>]
   \<and> skylineUpdate [\<lparr>n_x = 0, n_z = 10\<rparr>, \<lparr>n_x = 5, n_z = 5\<rparr>, \<lparr>n_x = 10, n_z = 0\<rparr>] 5 5 10
     = Inr [\<lparr>n_x = 5, n_z = 10\<rparr>, \<lparr>n_x = 10, n_z = 0\<rparr>]
   \<and> \<not> profileInv 10 [\<lparr>n_x = 5, n_z = 10\<rparr>, \<lparr>n_x = 10, n_z = 0\<rparr>]"
proof -
  have inv: "profileInv 10 [\<lparr>n_x = 0, n_z = 10\<rparr>, \<lparr>n_x = 5, n_z = 5\<rparr>, \<lparr>n_x = 10, n_z = 0\<rparr>]"
    by (simp add: profileInv_def)
  have ninv: "\<not> profileInv 10 [\<lparr>n_x = 5, n_z = 10\<rparr>, \<lparr>n_x = 10, n_z = 0\<rparr>]"
    by (simp add: profileInv_def)
  have upd: "skylineUpdate [\<lparr>n_x = 0, n_z = 10\<rparr>, \<lparr>n_x = 5, n_z = 5\<rparr>, \<lparr>n_x = 10, n_z = 0\<rparr>] 5 5 10
     = Inr [\<lparr>n_x = 5, n_z = 10\<rparr>, \<lparr>n_x = 10, n_z = 0\<rparr>]"
    by code_simp
  have s1: "scanGaps [\<lparr>b_id = ''A'', b_w = 5, b_h = 5, b_d = 5, b_qty = 8\<rparr>]
     \<lparr>p_w = 10, p_h = 20, p_d = 10\<rparr> 10 0
     [\<lparr>n_x = 0, n_z = 0\<rparr>, \<lparr>n_x = 10, n_z = 0\<rparr>] [0 ..< 1]
   = Commit [\<lparr>n_x = 0, n_z = 5\<rparr>, \<lparr>n_x = 10, n_z = 0\<rparr>]
       [\<lparr>b_id = ''A'', b_w = 5, b_h = 5, b_d = 5, b_qty = 7\<rparr>]
       \<lparr>b_id = ''A'', b_w = 5, b_h = 5, b_d = 5, b_qty = 1, pl_x = 0,
        pl_y = 0, pl_z = 0, pl_orientation = (5, 5, 5)\<rparr>"
    by code_simp
  have s2: "scanGaps [\<lparr>b_id = ''A'', b_w = 5, b_h = 5, b_d = 5, b_qty = 7\<rparr>]
       \<lparr>p_w = 10, p_h = 20, p_d = 10\<rparr> 10 0
       [\<lparr>n_x = 0, n_z = 5\<rparr>, \<lparr>n_x = 10, n_z = 0\<rparr>] [0 ..< 1]
     = Commit [\<lparr>n_x = 0, n_z = 10\<rparr>, \<lparr>n_x = 5, n_z = 5\<rparr>, \<lparr>n_x = 10, n_z = 0\<rparr>]
         [\<lparr>b_id = ''A'', b_w = 5, b_h = 5, b_d = 5, b_qty = 6\<rparr>]
         \<lparr>b_id = ''A'', b_w = 5, b_h = 5, b_d = 5, b_qty = 1, pl_x = 0,
          pl_y = 0, pl_z = 5, pl_orientation = (5, 5, 5)\<rparr>"
    by code_simp
  have s3: "scanGaps [\<lparr>b_id = ''A'', b_w = 5, b_h = 5, b_d = 5, b_qty = 6\<rparr>]
       \<lparr>p_w = 10, p_h = 20, p_d = 10\<rparr> 10 0
       [\<lparr>n_x = 0, n_z = 10\<rparr>, \<lparr>n_x = 5, n_z = 5\<rparr>, \<lparr>n_x = 10, n_z = 0\<rparr>] [0 ..< 2]
     = Commit [\<lparr>n_x = 5, n_z = 10\<rparr>, \<lparr>n_x = 10, n_z = 0\<rparr>]
         [\<lparr>b_id = ''A'', b_w = 5, b_h = 5, b_d = 5, b_qty = 5\<rparr>]
         \<lparr>b_id = ''A'', b_w = 5, b_h = 5, b_d = 5, b_qty = 1, pl_x = 5,
          pl_y = 0, pl_z = 5, pl_orientation = (5, 5, 5)\<rparr>"
    by code_simp
  from s1 s2 s3 inv upd ninv show ?thesis by blast
qed

text \<open>
  What a commit does keep, for every profile with strictly increasing x and every
  commit of positive width that starts left of the sentinel: the x-coordinates stay
  strictly increasing, no two adjacent nodes share z, and the last node stays at the
  sentinel.
\<close>

lemma skylineUpdate_keeps_order_and_sentinel:
  assumes "nodes \<noteq> []" and "sorted_wrt (<) (map n_x nodes)"
    and "x < n_x (last nodes)" and "0 < bw"
  shows "\<exists>nodes'. skylineUpdate nodes x bw newTop = Inr nodes' \<and> nodes' \<noteq> []
           \<and> sorted_wrt (<) (map n_x nodes') \<and> distinct_adj (map n_z nodes')
           \<and> n_x (last nodes') = n_x (last nodes)"
  using skylineUpdate_profile[of nodes x bw newTop] assms by (auto simp: xsorted_map)

section \<open>The pallet packer\<close>



lemma stackStep_placed:
  assumes guard: "currentY < p_h pallet"
    and run: "packLayerSkyline remainingBoxes pallet (clipHeight pallet currentY lh0) currentY
                = Some (Inr (placed, boxesOut))"
    and ne: "placed \<noteq> []"
  shows "stackStep pallet remainingBoxes placedAll currentY lh0
         = Continue boxesOut (placedAll @ placed)
             (currentY + max (clipHeight pallet currentY lh0) (Max (set (map b_h placed))))
             (clipHeight pallet currentY lh0)"
proof -
  from ne obtain p ps where "placed = p # ps" by (cases placed) auto
  then have m: "maxOf (map b_h placed) = Some (Max (set (map b_h placed)))"
    by (simp add: maxOf_Cons)
  from guard have "\<not> (currentY + lh0 > p_h pallet \<and> clipHeight pallet currentY lh0 \<le> 0)"
    by (simp add: clipHeight_def)
  with run ne m show ?thesis
    by (simp add: stackStep_def Let_def clipHeight_def[symmetric] del: set_map)
qed






text \<open>
  C4 (as amended).  When the layer packed at the cursor places at least one box, the
  cursor advances by the larger of the layer height in force (the candidate height,
  clipped to the headroom left) and the maximal height among the boxes placed in that
  layer.
\<close>

theorem stackStep_cursor_advance:
  assumes guard: "currentY < p_h pallet"
    and run: "packLayerSkyline remainingBoxes pallet
                (clipHeight pallet currentY currentLayerHeight) currentY
              = Some (Inr (placed, boxesOut))"
    and ne: "placed \<noteq> []"
  shows "stackStep pallet remainingBoxes placedAll currentY currentLayerHeight
           = Continue boxesOut (placedAll @ placed)
               (currentY + max (clipHeight pallet currentY currentLayerHeight)
                               (Max (set (map b_h placed))))
               (clipHeight pallet currentY currentLayerHeight)
         \<and> stackLoop pallet remainingBoxes placedAll currentY currentLayerHeight
           = stackLoop pallet boxesOut (placedAll @ placed)
               (currentY + max (clipHeight pallet currentY currentLayerHeight)
                               (Max (set (map b_h placed))))
               (clipHeight pallet currentY currentLayerHeight)"
proof -
  note st = stackStep_placed[OF guard run ne, of placedAll]
  have "stackLoop pallet remainingBoxes placedAll currentY currentLayerHeight
           = stackLoop pallet boxesOut (placedAll @ placed)
               (currentY + max (clipHeight pallet currentY currentLayerHeight)
                               (Max (set (map b_h placed))))
               (clipHeight pallet currentY currentLayerHeight)"
    using guard st by (subst stackLoop.simps) simp
  with st show ?thesis ..
qed

theorem stackStep_cursor_advance_witness:
  "stackStep \<lparr>p_w = 10, p_h = 20, p_d = 10\<rparr>
     [\<lparr>b_id = ''A'', b_w = 5, b_h = 5, b_d = 5, b_qty = 8\<rparr>] [] 0 10
   = Continue [\<lparr>b_id = ''A'', b_w = 5, b_h = 5, b_d = 5, b_qty = 5\<rparr>]
       [\<lparr>b_id = ''A'', b_w = 5, b_h = 5, b_d = 5, b_qty = 1, pl_x = 0,
         pl_y = 0, pl_z = 0, pl_orientation = (5, 5, 5)\<rparr>,
        \<lparr>b_id = ''A'', b_w = 5, b_h = 5, b_d = 5, b_qty = 1, pl_x = 0,
         pl_y = 0, pl_z = 5, pl_orientation = (5, 5, 5)\<rparr>,
        \<lparr>b_id = ''A'', b_w = 5, b_h = 5, b_d = 5, b_qty = 1, pl_x = 5,
         pl_y = 0, pl_z = 5, pl_orientation = (5, 5, 5)\<rparr>]
       (0 + max 10 5) 10"
proof -
  let ?P = "\<lparr>p_w = 10, p_h = 20, p_d = 10\<rparr>"
  let ?pl = "[\<lparr>b_id = ''A'', b_w = 5, b_h = 5, b_d = 5, b_qty = 1, pl_x = 0,
                pl_y = 0, pl_z = 0, pl_orientation = (5, 5, 5)\<rparr>,
              \<lparr>b_id = ''A'', b_w = 5, b_h = 5, b_d = 5, b_qty = 1, pl_x = 0,
                pl_y = 0, pl_z = 5, pl_orientation = (5, 5, 5)\<rparr>,
              \<lparr>b_id = ''A'', b_w = 5, b_h = 5, b_d = 5, b_qty = 1, pl_x = 5,
                pl_y = 0, pl_z = 5, pl_orientation = (5, 5, 5)\<rparr>]"
  have g: "0 < p_h ?P" by simp
  have c: "clipHeight ?P 0 10 = 10" by (simp add: clipHeight_def)
  have "packLayerSkyline [\<lparr>b_id = ''A'', b_w = 5, b_h = 5, b_d = 5, b_qty = 8\<rparr>] ?P 10 0
        = Some (Inr (?pl, [\<lparr>b_id = ''A'', b_w = 5, b_h = 5, b_d = 5, b_qty = 5\<rparr>]))"
    by code_simp
  with c have r: "packLayerSkyline [\<lparr>b_id = ''A'', b_w = 5, b_h = 5, b_d = 5, b_qty = 8\<rparr>] ?P
          (clipHeight ?P 0 10) 0
        = Some (Inr (?pl, [\<lparr>b_id = ''A'', b_w = 5, b_h = 5, b_d = 5, b_qty = 5\<rparr>]))"
    by simp
  have n: "?pl \<noteq> []" by simp
  from stackStep_cursor_advance[OF g r n, of "[]"] c show ?thesis by simp
qed

text \<open>
  The claim as stated, with the cursor advancing by exactly the maximal placed height,
  fails: under a candidate height of 10 the 5-cubes fit the layer, the tallest box
  placed is 5 high, and the cursor goes from 0 to 10; the second layer is stacked at
  \<open>y = 10\<close>.
\<close>

theorem cursor_exact_height_counterexample:
  "stackStep \<lparr>p_w = 10, p_h = 20, p_d = 10\<rparr>
     [\<lparr>b_id = ''A'', b_w = 5, b_h = 5, b_d = 5, b_qty = 8\<rparr>] [] 0 10
   = Continue [\<lparr>b_id = ''A'', b_w = 5, b_h = 5, b_d = 5, b_qty = 5\<rparr>]
       [\<lparr>b_id = ''A'', b_w = 5, b_h = 5, b_d = 5, b_qty = 1, pl_x = 0,
         pl_y = 0, pl_z = 0, pl_orientation = (5, 5, 5)\<rparr>,
        \<lparr>b_id = ''A'', b_w = 5, b_h = 5, b_d = 5, b_qty = 1, pl_x = 0,
         pl_y = 0, pl_z = 5, pl_orientation = (5, 5, 5)\<rparr>,
        \<lparr>b_id = ''A'', b_w = 5, b_h = 5, b_d = 5, b_qty = 1, pl_x = 5,
         pl_y = 0, pl_z = 5, pl_orientation = (5, 5, 5)\<rparr>]
       10 10
   \<and> maxOf (map b_h
        [\<lparr>b_id = ''A'', b_w = 5, b_h = 5, b_d = 5, b_qty = 1, pl_x = 0,
          pl_y = 0, pl_z = 0, pl_orientation = (5, 5, 5)\<rparr>,
         \<lparr>b_id = ''A'', b_w = 5, b_h = 5, b_d = 5, b_qty = 1, pl_x = 0,
          pl_y = 0, pl_z = 5, pl_orientation = (5, 5, 5)\<rparr>,
         \<lparr>b_id = ''A'', b_w = 5, b_h = 5, b_d = 5, b_qty = 1, pl_x = 5,
          pl_y = 0, pl_z = 5, pl_orientation = (5, 5, 5)\<rparr>]) = Some 5
   \<and> (10::int) \<noteq> 0 + 5
   \<and> packPalletWithLayers [\<lparr>b_id = ''A'', b_w = 5, b_h = 5, b_d = 5, b_qty = 8\<rparr>]
       \<lparr>p_w = 10, p_h = 20, p_d = 10\<rparr> [\<lparr>height = 10, evalScore = 0\<rparr>]
     = Some (Inr ([\<lparr>b_id = ''A'', b_w = 5, b_h = 5, b_d = 5, b_qty = 1, pl_x = 0,
                     pl_y = 0, pl_z = 0, pl_orientation = (5, 5, 5)\<rparr>,
                   \<lparr>b_id = ''A'', b_w = 5, b_h = 5, b_d = 5, b_qty = 1, pl_x = 0,
                     pl_y = 0, pl_z = 5, pl_orientation = (5, 5, 5)\<rparr>,
                   \<lparr>b_id = ''A'', b_w = 5, b_h = 5, b_d = 5, b_qty = 1, pl_x = 5,
                     pl_y = 0, pl_z = 5, pl_orientation = (5, 5, 5)\<rparr>,
                   \<lparr>b_id = ''A'', b_w = 5, b_h = 5, b_d = 5, b_qty = 1, pl_x = 0,
                     pl_y = 10, pl_z = 0, pl_orientation = (5, 5, 5)\<rparr>,
                   \<lparr>b_id = ''A'', b_w = 5, b_h = 5, b_d = 5, b_qty = 1, pl_x = 0,
                     pl_y = 10, pl_z = 5, pl_orientation = (5, 5, 5)\<rparr>,
                   \<lparr>b_id = ''A'', b_w = 5, b_h = 5, b_d = 5, b_qty = 1, pl_x = 5,
                     pl_y = 10, pl_z = 5, pl_orientation = (5, 5, 5)\<rparr>],
                  3 / 8))"
  by code_simp

text \<open>
  The lower bound of the utilization does hold: the accumulator starts at 0 and is only
  replaced by a greater value.
\<close>

lemma candidateLoop_nonneg:
  assumes "candidateLoop boxes pallet best cs = Some (Inr best')" and "0 \<le> snd best"
  shows "0 \<le> snd best'"
  using assms
proof (induction cs arbitrary: best)
  case Nil
  then show ?case by simp
next
  case (Cons c cs)
  from Cons.prems(1) obtain best1 where
    st: "candidateStep boxes pallet best c = Some (Inr best1)"
    and lp: "candidateLoop boxes pallet best1 cs = Some (Inr best')"
    by (auto split: option.splits sum.splits)
  from st Cons.prems(2) have "0 \<le> snd best1"
    by (auto simp: candidateStep_def Let_def split: option.splits sum.splits if_splits)
  from Cons.IH[OF lp this] show ?case .
qed

lemma packPalletWithLayers_utilization_nonneg:
  assumes "packPalletWithLayers boxes pallet layerCandidates = Some (Inr (placed, utilization))"
  shows "0 \<le> utilization"
  using candidateLoop_nonneg[of boxes pallet "([], 0)" layerCandidates "(placed, utilization)"]
    assms by (simp add: packPalletWithLayers_def)

text \<open>
  C5.  The claim bounds the utilization by 1 and the placed volume by the pallet volume.
  One box of 10 by 20 by 10 and a pallet of 10 by 10 by 10, with the candidates that
  buildLayerCandidates computes: the only orientation that fits the cross-section is
  20 high, findBestBoxForGap still returns it (with the penalty), and the box is placed
  in a layer clipped to a height of 10.  The placed volume is 2000, the pallet volume
  1000, the utilization 2.  (The lower bound is the lemma above.)
\<close>

theorem utilization_exceeds_one:
  "buildLayerCandidates [\<lparr>b_id = ''A'', b_w = 10, b_h = 20, b_d = 10, b_qty = 1\<rparr>]
     \<lparr>p_w = 10, p_h = 10, p_d = 10\<rparr> = [\<lparr>height = 10, evalScore = 0\<rparr>]
   \<and> packPalletWithLayers [\<lparr>b_id = ''A'', b_w = 10, b_h = 20, b_d = 10, b_qty = 1\<rparr>]
       \<lparr>p_w = 10, p_h = 10, p_d = 10\<rparr>
       (buildLayerCandidates [\<lparr>b_id = ''A'', b_w = 10, b_h = 20, b_d = 10, b_qty = 1\<rparr>]
          \<lparr>p_w = 10, p_h = 10, p_d = 10\<rparr>)
     = Some (Inr ([\<lparr>b_id = ''A'', b_w = 10, b_h = 20, b_d = 10, b_qty = 1, pl_x = 0,
                     pl_y = 0, pl_z = 0, pl_orientation = (10, 20, 10)\<rparr>], 2))
   \<and> usedVolume [\<lparr>b_id = ''A'', b_w = 10, b_h = 20, b_d = 10, b_qty = 1, pl_x = 0,
                   pl_y = 0, pl_z = 0, pl_orientation = (10, 20, 10)\<rparr>] = 2000
   \<and> p_w \<lparr>p_w = 10, p_h = 10, p_d = 10\<rparr> * p_h \<lparr>p_w = 10, p_h = 10, p_d = 10\<rparr>
       * p_d \<lparr>p_w = 10, p_h = 10, p_d = 10\<rparr> = 1000"
  by code_simp

end
